theory Spec2Isabelle
  imports Complex_Main
begin

section \<open>The timer module of Pilomar (src/utils/timer.py)\<close>

text \<open>
  The module holds two classes, \<open>ProgressTimer\<close> and \<open>Timer\<close>. Both read the system
  clock and do arithmetic on \<open>datetime\<close> and \<open>timedelta\<close> values.

  Modelling conventions.
  \<^item> A \<open>datetime\<close> is an instant with microsecond resolution and a \<open>timedelta\<close> is a
    whole number of microseconds: both are \<open>int\<close> (microseconds). The range limits of
    Python's \<open>datetime\<close> (years 1 to 9999) are not modelled.
  \<^item> \<open>period\<close>, \<open>offset\<close>, \<open>start\<close>, \<open>target\<close> and \<open>current\<close> are Python ints, as the
    type hints and docstrings say: \<open>int\<close>.
  \<^item> A Python \<open>float\<close> is modelled by the exact real number it stands for (\<open>real\<close>):
    rounding errors and overflow of binary floating point are not modelled.
  \<^item> The system clock is an input. Every method that reads it takes the instant \<open>now\<close>
    it observes; all the reads of one call see the same instant. \<open>wait\<close>, which sleeps
    between polls, takes the sequence of instants its polls observe.
  \<^item> A method that assigns attributes returns the updated object next to its result.
  \<^item> A raised exception is an \<open>Inl\<close> value; a loop that may run forever is a
    \<open>partial_function\<close> in the option monad, where \<open>None\<close> means that it never returns.
\<close>

datatype py_error = ZeroDivisionError

subsection \<open>Python primitives\<close>

text \<open>\<open>timedelta(seconds=n)\<close> for an int \<open>n\<close>, in microseconds.\<close>

definition timedelta_seconds :: "int \<Rightarrow> int" where
  "timedelta_seconds n = n * 1000000"

text \<open>\<open>timedelta.total_seconds()\<close>: the microseconds divided by \<open>10**6\<close>, a float.\<close>

definition total_seconds :: "int \<Rightarrow> real" where
  "total_seconds d = of_int d / 1000000"

text \<open>\<open>round(x, 0)\<close> on a float: to the nearest integer, a tie to the even one.\<close>

definition py_round :: "real \<Rightarrow> int" where
  "py_round x =
     (let f = \<lfloor>x\<rfloor>; d = x - of_int f
      in if d < 1 / 2 then f
         else if 1 / 2 < d then f + 1
         else if even f then f else f + 1)"

text \<open>True division \<open>a / b\<close> with a float result: raises on a zero divisor.\<close>

definition truediv :: "real \<Rightarrow> real \<Rightarrow> py_error + real" where
  "truediv a b = (if b = 0 then Inl ZeroDivisionError else Inr (a / b))"

subsection \<open>ProgressTimer\<close>

record progress_timer =
  name :: string
  start :: int
  current :: int
  target :: int
  start_time :: int

text \<open>\<open>__init__(name, target, start=0, initial=None)\<close>, run when the clock shows \<open>now\<close>.\<close>

definition ProgressTimer_init :: "string \<Rightarrow> int \<Rightarrow> int \<Rightarrow> int option \<Rightarrow> int \<Rightarrow> progress_timer" where
  "ProgressTimer_init nm tgt st initial now =
     \<lparr>name = nm, start = st,
      current = (case initial of Some i \<Rightarrow> i | None \<Rightarrow> st),
      target = tgt, start_time = now\<rparr>"

definition update_count :: "progress_timer \<Rightarrow> int \<Rightarrow> progress_timer" where
  "update_count pt count = pt\<lparr>current := count\<rparr>"

text \<open>
  \<open>get_percent\<close>: \<open>100 * (current - start) / (target - start)\<close>. The method assigns
  nothing; it returns the object as it found it, next to the result or the exception.
\<close>

definition get_percent :: "progress_timer \<Rightarrow> (py_error + real) \<times> progress_timer" where
  "get_percent pt =
     (truediv (of_int (100 * (current pt - start pt))) (of_int (target pt - start pt)), pt)"

definition get_total_seconds :: "progress_timer \<Rightarrow> int \<Rightarrow> py_error + real" where
  "get_total_seconds pt now =
     (let temp = current pt - start pt
      in if temp \<noteq> 0
         then (case fst (get_percent pt) of
                 Inl e \<Rightarrow> Inl e
               | Inr pc \<Rightarrow> truediv (total_seconds (now - start_time pt) * 100) pc)
         else Inr 0)"

text \<open>
  \<open>get_eta\<close>: \<open>timedelta(seconds=temp)\<close> for a float \<open>temp\<close> rounds to the nearest
  microsecond.
\<close>

definition get_eta :: "progress_timer \<Rightarrow> int \<Rightarrow> py_error + int" where
  "get_eta pt now =
     (case get_total_seconds pt now of
        Inl e \<Rightarrow> Inl e
      | Inr temp \<Rightarrow>
          if temp \<noteq> 0 then Inr (start_time pt + py_round (temp * 1000000))
          else Inr (start_time pt))"

subsection \<open>Timer\<close>

record timer =
  period :: int
  next_trigger :: int
  skip_events :: bool
  force_trigger :: bool

text \<open>\<open>__init__(period, offset=0, skip=True)\<close>, run when the clock shows \<open>now\<close>.\<close>

definition Timer_init :: "int \<Rightarrow> int \<Rightarrow> bool \<Rightarrow> int \<Rightarrow> timer" where
  "Timer_init p offset skip now =
     (let p' = (if p < 1 then 1 else p)
      in \<lparr>period = p',
          next_trigger = (if offset = 0 then now + timedelta_seconds p'
                          else now + timedelta_seconds offset),
          skip_events = skip,
          force_trigger = False\<rparr>)"

text \<open>
  The loop of \<open>set_next_trigger\<close>:
  \<open>while self.next_trigger <= self.now_utc(): self.next_trigger += timedelta(seconds=self.period)\<close>.
\<close>

partial_function (option) skip_loop :: "timer \<Rightarrow> int \<Rightarrow> timer option" where
  "skip_loop tm now =
     (if next_trigger tm \<le> now
      then skip_loop (tm\<lparr>next_trigger := next_trigger tm + timedelta_seconds (period tm)\<rparr>) now
      else Some tm)"

definition set_next_trigger :: "timer \<Rightarrow> int \<Rightarrow> timer option" where
  "set_next_trigger tm now =
     (if skip_events tm
      then (case skip_loop tm now of
              None \<Rightarrow> None
            | Some tm' \<Rightarrow> Some (tm'\<lparr>force_trigger := False\<rparr>))
      else Some (tm\<lparr>next_trigger := next_trigger tm + timedelta_seconds (period tm),
                   force_trigger := False\<rparr>))"

definition elapsed :: "timer \<Rightarrow> int \<Rightarrow> real" where
  "elapsed tm now =
     (let starttime = next_trigger tm - timedelta_seconds (period tm)
      in total_seconds (now - starttime))"

text \<open>
  \<open>elapsed_pc\<close>: \<open>round(100 * self.elapsed() / self.period, 0)\<close>. The quotient is exact
  here. In the code it is a binary float, which on a rounding tie (a quotient of the
  form \<open>n + 1/2\<close>) can fall on either side of the tie; away from ties, and at
  \<open>now = next_trigger\<close>, the two agree.
\<close>

definition elapsed_pc :: "timer \<Rightarrow> int \<Rightarrow> py_error + real" where
  "elapsed_pc tm now =
     (case truediv (100 * elapsed tm now) (of_int (period tm)) of
        Inl e \<Rightarrow> Inl e
      | Inr q \<Rightarrow> Inr (of_int (py_round q)))"

definition remaining :: "timer \<Rightarrow> int \<Rightarrow> real" where
  "remaining tm now =
     (let result = total_seconds (next_trigger tm - now)
      in if result < 0 then 0 else result)"

definition due :: "timer \<Rightarrow> int \<Rightarrow> (bool \<times> timer) option" where
  "due tm now =
     (if next_trigger tm < now \<or> force_trigger tm
      then (case set_next_trigger tm now of
              None \<Rightarrow> None
            | Some tm' \<Rightarrow> Some (True, tm'))
      else Some (False, tm))"

text \<open>
  \<open>wait\<close>: \<open>while self.due() is False: t = self.remaining(); if t > 0: event.wait(t)\<close>.
  The sleep changes nothing but the clock: \<open>clk i\<close> is the instant that poll number \<open>i\<close>
  observes.
\<close>

declare skip_loop.simps [code]

partial_function (option) wait :: "(nat \<Rightarrow> int) \<Rightarrow> nat \<Rightarrow> timer \<Rightarrow> (bool \<times> timer) option" where
  "wait clk i tm =
     (case due tm (clk i) of
        None \<Rightarrow> None
      | Some (r, tm') \<Rightarrow> if r then Some (True, tm') else wait clk (Suc i) tm')"

declare wait.simps [code]

definition restart :: "timer \<Rightarrow> int \<Rightarrow> bool \<times> timer" where
  "restart tm now =
     (True, tm\<lparr>next_trigger := now + timedelta_seconds (period tm), force_trigger := False\<rparr>)"

definition trigger :: "timer \<Rightarrow> bool \<times> timer" where
  "trigger tm = (True, tm\<lparr>force_trigger := True\<rparr>)"

subsection \<open>Sequences of calls on one Timer\<close>

text \<open>
  The methods a client can call on a \<open>Timer\<close>, each with the clock it runs under.
  \<open>call\<close> gives the object after the call, or \<open>None\<close> when the call does not return
  normally (it loops forever or raises). \<open>elapsed\<close>, \<open>elapsed_pc\<close> and \<open>remaining\<close> assign
  no attribute, so the object after them is the object before them.
\<close>

datatype timer_op =
    Due int
  | Wait "nat \<Rightarrow> int"
  | Restart int
  | Trigger
  | Elapsed int
  | Elapsed_pc int
  | Remaining int

fun call :: "timer_op \<Rightarrow> timer \<Rightarrow> timer option" where
  "call (Due now) tm = map_option snd (due tm now)"
| "call (Wait clk) tm = map_option snd (wait clk 0 tm)"
| "call (Restart now) tm = Some (snd (restart tm now))"
| "call Trigger tm = Some (snd (trigger tm))"
| "call (Elapsed now) tm = Some tm"
| "call (Elapsed_pc now) tm = (case elapsed_pc tm now of Inl e \<Rightarrow> None | Inr pc \<Rightarrow> Some tm)"
| "call (Remaining now) tm = Some tm"

fun calls :: "timer_op list \<Rightarrow> timer \<Rightarrow> timer option" where
  "calls [] tm = Some tm"
| "calls (c # cs) tm = (case call c tm of None \<Rightarrow> None | Some tm' \<Rightarrow> calls cs tm')"

section \<open>Properties\<close>

subsection \<open>The catch-up loop\<close>

text \<open>
  With a period of at least one second the loop of \<open>set_next_trigger\<close> returns. It leaves
  a \<open>next_trigger\<close> in the future alone; otherwise it adds the period
  \<open>(now - next_trigger) div period + 1\<close> times, which is the least number of additions
  that puts \<open>next_trigger\<close> strictly after \<open>now\<close>.
\<close>

lemma timedelta_seconds_pos: "1 \<le> n \<Longrightarrow> 0 < timedelta_seconds n"
  by (simp add: timedelta_seconds_def)

lemma skip_loop_future: "now < next_trigger tm \<Longrightarrow> skip_loop tm now = Some tm"
  by (subst skip_loop.simps) simp

lemma skip_loop_step:
  "next_trigger tm \<le> now \<Longrightarrow>
   skip_loop tm now =
   skip_loop (tm\<lparr>next_trigger := next_trigger tm + timedelta_seconds (period tm)\<rparr>) now"
  by (subst skip_loop.simps) simp

lemma div_shift_period:
  fixes P d :: int
  assumes "0 < P" and "P \<le> d"
  shows "d div P = (d - P) div P + 1"
proof -
  have "d = (d - P) + P" by simp
  then have "d div P = ((d - P) + P) div P" by simp
  also have "\<dots> = (d - P) div P + 1" using assms(1) by (simp only: div_add_self2) 
  finally show ?thesis .
qed

lemma skip_loop_eq:
  "1 \<le> period tm \<Longrightarrow>
   skip_loop tm now =
   Some (tm\<lparr>next_trigger :=
     (if next_trigger tm \<le> now
      then next_trigger tm +
           ((now - next_trigger tm) div timedelta_seconds (period tm) + 1) * timedelta_seconds (period tm)
      else next_trigger tm)\<rparr>)"
proof (induction "nat (now + 1 - next_trigger tm)" arbitrary: tm rule: less_induct)
  case less
  let ?P = "timedelta_seconds (period tm)"
  let ?nt = "next_trigger tm"
  have P: "0 < ?P" using less.prems by (rule timedelta_seconds_pos)
  show ?case
  proof (cases "?nt \<le> now")
    case False
    then show ?thesis by (simp add: skip_loop_future)
  next
    case True
    let ?tm1 = "tm\<lparr>next_trigger := ?nt + ?P\<rparr>"
    have dec: "nat (now + 1 - next_trigger ?tm1) < nat (now + 1 - ?nt)"
      using True P by simp
    have per: "1 \<le> period ?tm1" using less.prems by simp
    have IH: "skip_loop ?tm1 now =
        Some (?tm1\<lparr>next_trigger :=
          (if next_trigger ?tm1 \<le> now
           then next_trigger ?tm1 +
             ((now - next_trigger ?tm1) div timedelta_seconds (period ?tm1) + 1) * timedelta_seconds (period ?tm1)
           else next_trigger ?tm1)\<rparr>)"
      by (rule less.hyps [OF dec per])
    have nt: "(if next_trigger ?tm1 \<le> now
           then next_trigger ?tm1 +
             ((now - next_trigger ?tm1) div timedelta_seconds (period ?tm1) + 1) * timedelta_seconds (period ?tm1)
           else next_trigger ?tm1) = ?nt + ((now - ?nt) div ?P + 1) * ?P"
    proof (cases "?nt + ?P \<le> now")
      case True
      then have "?P \<le> now - ?nt" by simp
      from div_shift_period [OF P this]
      have "(now - ?nt) div ?P = (now - (?nt + ?P)) div ?P + 1"
        by (simp add: algebra_simps)
      then show ?thesis using True by (simp add: algebra_simps)
    next
      case False
      then have "(now - ?nt) div ?P = 0"
        using \<open>?nt \<le> now\<close> by simp
      then show ?thesis using False by simp
    qed
    have "skip_loop tm now = skip_loop ?tm1 now" by (rule skip_loop_step [OF True])
    also have "\<dots> = Some (?tm1\<lparr>next_trigger := ?nt + ((now - ?nt) div ?P + 1) * ?P\<rparr>)"
      by (simp only: IH nt)
    finally show ?thesis using True by simp
  qed
qed

lemma set_next_trigger_eq:
  assumes "1 \<le> period tm"
  shows "set_next_trigger tm now =
     Some (tm\<lparr>next_trigger :=
        (if skip_events tm
         then (if next_trigger tm \<le> now
               then next_trigger tm +
                    ((now - next_trigger tm) div timedelta_seconds (period tm) + 1)
                      * timedelta_seconds (period tm)
               else next_trigger tm)
         else next_trigger tm + timedelta_seconds (period tm)),
       force_trigger := False\<rparr>)"
  by (simp add: set_next_trigger_def skip_loop_eq [OF assms])

lemma set_next_trigger_no_skip:
  "\<not> skip_events tm \<Longrightarrow>
   set_next_trigger tm now =
     Some (tm\<lparr>next_trigger := next_trigger tm + timedelta_seconds (period tm),
              force_trigger := False\<rparr>)"
  by (simp add: set_next_trigger_def)

lemma set_next_trigger_future:
  "skip_events tm \<Longrightarrow> now < next_trigger tm \<Longrightarrow>
   set_next_trigger tm now = Some (tm\<lparr>force_trigger := False\<rparr>)"
  by (simp add: set_next_trigger_def skip_loop_future)

lemma due_eq:
  assumes "1 \<le> period tm"
  shows "due tm now =
     (if next_trigger tm < now \<or> force_trigger tm
      then Some (True, tm\<lparr>next_trigger :=
        (if skip_events tm
         then (if next_trigger tm \<le> now
               then next_trigger tm +
                    ((now - next_trigger tm) div timedelta_seconds (period tm) + 1)
                      * timedelta_seconds (period tm)
               else next_trigger tm)
         else next_trigger tm + timedelta_seconds (period tm)),
       force_trigger := False\<rparr>)
      else Some (False, tm))"
  by (simp add: due_def set_next_trigger_eq [OF assms])

lemma catch_up_bounds:
  fixes P :: int
  assumes "0 < P" and "nt \<le> now"
  shows "now < nt + ((now - nt) div P + 1) * P"
    and "nt + ((now - nt) div P + 1) * P \<le> now + P"
    and "nt < nt + ((now - nt) div P + 1) * P"
proof -
  have eq: "(now - nt) div P * P + (now - nt) mod P = now - nt" by simp
  have lt: "(now - nt) mod P < P" and ge: "0 \<le> (now - nt) mod P"
    using assms(1) by simp_all
  have exp: "((now - nt) div P + 1) * P = (now - nt) div P * P + P"
    by (simp add: algebra_simps)
  show "now < nt + ((now - nt) div P + 1) * P" using eq lt exp by linarith
  show "nt + ((now - nt) div P + 1) * P \<le> now + P" using eq ge exp by linarith
  show "nt < nt + ((now - nt) div P + 1) * P"
    using \<open>now < nt + ((now - nt) div P + 1) * P\<close> assms(2) by linarith
qed

lemma due_no_skip:
  "\<not> skip_events tm \<Longrightarrow>
   due tm now =
     (if next_trigger tm < now \<or> force_trigger tm
      then Some (True, tm\<lparr>next_trigger := next_trigger tm + timedelta_seconds (period tm),
                            force_trigger := False\<rparr>)
      else Some (False, tm))"
  by (simp add: due_def set_next_trigger_no_skip)

subsection \<open>The period is never assigned after construction\<close>

lemma skip_loop_period:
  assumes "skip_loop tm now = Some tm'"
  shows "period tm' = period tm"
proof (rule skip_loop.raw_induct [where P = "\<lambda>t n t'. period t' = period t", OF _ assms])
  fix loop :: "timer \<Rightarrow> int \<Rightarrow> timer option" and t n t'
  assume IH: "\<And>t n t'. loop t n = Some t' \<Longrightarrow> period t' = period t"
    and eq: "(if next_trigger t \<le> n
              then loop (t\<lparr>next_trigger := next_trigger t + timedelta_seconds (period t)\<rparr>) n
              else Some t) = Some t'"
  show "period t' = period t"
  proof (cases "next_trigger t \<le> n")
    case True
    with eq have "loop (t\<lparr>next_trigger := next_trigger t + timedelta_seconds (period t)\<rparr>) n = Some t'"
      by simp
    from IH [OF this] show ?thesis by simp
  next
    case False
    with eq show ?thesis by simp
  qed
qed

lemma set_next_trigger_period:
  "set_next_trigger tm now = Some tm' \<Longrightarrow> period tm' = period tm"
  by (auto simp add: set_next_trigger_def split: if_splits option.splits dest: skip_loop_period)

lemma due_period: "due tm now = Some (r, tm') \<Longrightarrow> period tm' = period tm"
  by (auto simp add: due_def split: if_splits option.splits dest: set_next_trigger_period)

lemma wait_period:
  assumes "wait clk i tm = Some rt"
  shows "period (snd rt) = period tm"
proof (rule wait.raw_induct [where P = "\<lambda>c j t r. period (snd r) = period t", OF _ assms])
  fix w :: "(nat \<Rightarrow> int) \<Rightarrow> nat \<Rightarrow> timer \<Rightarrow> (bool \<times> timer) option" and c j t rt
  assume IH: "\<And>c j t r. w c j t = Some r \<Longrightarrow> period (snd r) = period t"
    and eq: "(case due t (c j) of None \<Rightarrow> None
              | Some (r, t') \<Rightarrow> if r then Some (True, t') else w c (Suc j) t') = Some rt"
  from eq obtain r t1 where d: "due t (c j) = Some (r, t1)"
    by (auto split: option.splits)
  have p1: "period t1 = period t" using d by (rule due_period)
  show "period (snd rt) = period t"
  proof (cases r)
    case True
    with eq d have "rt = (True, t1)" by simp
    then show ?thesis using p1 by simp
  next
    case False
    with eq d have "w c (Suc j) t1 = Some rt" by simp
    from IH [OF this] show ?thesis using p1 by simp
  qed
qed

lemma restart_period: "period (snd (restart tm now)) = period tm"
  by (simp add: restart_def)

lemma trigger_period: "period (snd (trigger tm)) = period tm"
  by (simp add: trigger_def)

lemma call_period: "call c tm = Some tm' \<Longrightarrow> period tm' = period tm"
proof (cases c)
  case (Due now)
  assume "call c tm = Some tm'"
  with Due obtain r where "due tm now = Some (r, tm')" by auto
  then show ?thesis by (rule due_period)
next
  case (Wait clk)
  assume "call c tm = Some tm'"
  with Wait obtain rt where "wait clk 0 tm = Some rt" and "tm' = snd rt" by auto
  then show ?thesis using wait_period by simp
next
  case (Restart now)
  assume "call c tm = Some tm'"
  with Restart show ?thesis by (auto simp add: restart_period)
next
  case Trigger
  assume "call c tm = Some tm'"
  with Trigger show ?thesis by (auto simp add: trigger_period)
next
  case (Elapsed now)
  assume "call c tm = Some tm'"
  with Elapsed show ?thesis by simp
next
  case (Elapsed_pc now)
  assume "call c tm = Some tm'"
  with Elapsed_pc show ?thesis by (simp split: sum.splits)
next
  case (Remaining now)
  assume "call c tm = Some tm'"
  with Remaining show ?thesis by simp
qed

lemma calls_period: "calls cs tm = Some tm' \<Longrightarrow> period tm' = period tm"
proof (induction cs arbitrary: tm)
  case Nil
  then show ?case by simp
next
  case (Cons c cs)
  from Cons.prems obtain tm1 where c: "call c tm = Some tm1" and r: "calls cs tm1 = Some tm'"
    by (auto split: option.splits)
  from Cons.IH [OF r] call_period [OF c] show ?case by simp
qed

lemma Timer_init_period: "period (Timer_init p offset skip t0) = (if p < 1 then 1 else p)"
  by (simp add: Timer_init_def)

text \<open>
  \<open>wait\<close> returns as soon as one of its polls sees the clock past \<open>next_trigger\<close>; the
  calls that do not sleep always return.
\<close>

lemma wait_returns:
  assumes "1 \<le> period tm" and "next_trigger tm < clk (i + n) \<or> force_trigger tm"
  shows "\<exists>tm'. wait clk i tm = Some (True, tm')"
  using assms
proof (induction n arbitrary: i)
  case 0
  then have "next_trigger tm < clk i \<or> force_trigger tm" by simp
  then obtain tm1 where "due tm (clk i) = Some (True, tm1)"
    using due_eq [OF \<open>1 \<le> period tm\<close>, of "clk i"] by auto
  then show ?case by (subst wait.simps) simp
next
  case (Suc n)
  show ?case
  proof (cases "next_trigger tm < clk i \<or> force_trigger tm")
    case True
    then obtain tm1 where "due tm (clk i) = Some (True, tm1)"
      using due_eq [OF \<open>1 \<le> period tm\<close>, of "clk i"] by auto
    then show ?thesis by (subst wait.simps) simp
  next
    case False
    then have d: "due tm (clk i) = Some (False, tm)" by (simp add: due_def)
    from False Suc.prems(2) have "next_trigger tm < clk (Suc i + n) \<or> force_trigger tm" by simp
    from Suc.IH [OF Suc.prems(1) this] obtain tm' where "wait clk (Suc i) tm = Some (True, tm')" ..
    then show ?thesis using d by (subst wait.simps) simp
  qed
qed

lemma call_returns:
  assumes "1 \<le> period tm" and "\<forall>clk. c \<noteq> Wait clk"
  shows "\<exists>tm'. call c tm = Some tm'"
proof (cases c)
  case (Due now)
  then show ?thesis using due_eq [OF assms(1), of now] by auto
next
  case (Wait clk)
  then show ?thesis using assms(2) by simp
next
  case (Elapsed_pc now)
  have "period tm \<noteq> 0" using assms(1) by simp
  then show ?thesis using Elapsed_pc by (simp add: elapsed_pc_def truediv_def)
qed simp_all

subsection \<open>Rounding\<close>

lemma py_round_of_int: "py_round (of_int n) = n"
  by (simp add: py_round_def)

lemma elapsed_at_next_trigger:
  "elapsed tm (next_trigger tm) = of_int (period tm)"
  by (simp add: elapsed_def total_seconds_def timedelta_seconds_def)

lemma elapsed_pc_eq:
  "period tm \<noteq> 0 \<Longrightarrow>
   elapsed_pc tm now = Inr (of_int (py_round (100 * elapsed tm now / of_int (period tm))))"
  by (simp add: elapsed_pc_def truediv_def)

lemma elapsed_two_periods:
  "2 * of_int (period tm) < elapsed tm now \<longleftrightarrow>
   next_trigger tm + timedelta_seconds (period tm) < now"
proof -
  have "2 * real_of_int (period tm) < elapsed tm now \<longleftrightarrow>
        real_of_int (2 * period tm * 1000000) < real_of_int (now - (next_trigger tm - period tm * 1000000))"
    by (simp add: elapsed_def total_seconds_def timedelta_seconds_def field_simps)
  also have "\<dots> \<longleftrightarrow> 2 * period tm * 1000000 < now - (next_trigger tm - period tm * 1000000)"
    by (simp only: of_int_less_iff)
  also have "\<dots> \<longleftrightarrow> next_trigger tm + timedelta_seconds (period tm) < now"
    by (simp add: timedelta_seconds_def) linarith
  finally show ?thesis .
qed

section \<open>The claims of the specification\<close>

subsection \<open>C1: what \<open>due\<close> returns and what it changes\<close>

text \<open>
  Claim C1 as stated: for every Timer state, \<open>due()\<close> returns true if the clock is
  strictly past \<open>next_trigger\<close> or \<open>force_trigger\<close> is set; whenever it returns true it
  advances \<open>next_trigger\<close> and clears \<open>force_trigger\<close>; whenever it returns false it changes
  nothing.

  The middle part fails in one situation. With \<open>skip_events\<close> set, a forced trigger that
  fires while \<open>next_trigger\<close> is still in the future runs the catch-up loop zero times:
  \<open>due()\<close> returns true and \<open>next_trigger\<close> is what it was. Here a timer of 5 seconds is
  built at instant 0, triggered, and polled one second later.
\<close>

theorem due_forced_keeps_next_trigger:
  "due (snd (trigger (Timer_init 5 0 True 0))) 1000000
     = Some (True, \<lparr>period = 5, next_trigger = 5000000, skip_events = True, force_trigger = False\<rparr>)
   \<and> next_trigger (snd (trigger (Timer_init 5 0 True 0))) = 5000000"
  by (simp add: trigger_def Timer_init_def timedelta_seconds_def due_def set_next_trigger_def
        skip_loop_future)

text \<open>
  Claim C1 as amended. For every Timer state with \<open>period \<ge> 1\<close> (which every Timer has,
  see C9), \<open>due()\<close> returns; it returns true exactly when the clock is strictly past
  \<open>next_trigger\<close> or \<open>force_trigger\<close> is set. When it returns true it clears
  \<open>force_trigger\<close>, keeps \<open>period\<close> and \<open>skip_events\<close>, and moves \<open>next_trigger\<close> forward by
  whole periods: by one period without \<open>skip_events\<close>, and with \<open>skip_events\<close> by the least
  number of periods that puts it strictly after the clock. So \<open>next_trigger\<close> is never
  moved back, and it is strictly advanced in every case but the one above
  (\<open>skip_events\<close> set and the clock still before \<open>next_trigger\<close>), where it is unchanged.
  When \<open>due()\<close> returns false the whole state is unchanged.
\<close>

theorem due_returns_and_advances:
  assumes "1 \<le> period tm"
  shows "due tm now =
     (if next_trigger tm < now \<or> force_trigger tm
      then Some (True, tm\<lparr>next_trigger :=
        (if skip_events tm
         then (if next_trigger tm \<le> now
               then next_trigger tm +
                    ((now - next_trigger tm) div timedelta_seconds (period tm) + 1)
                      * timedelta_seconds (period tm)
               else next_trigger tm)
         else next_trigger tm + timedelta_seconds (period tm)),
       force_trigger := False\<rparr>)
      else Some (False, tm))
   \<and> (\<forall>tm'. due tm now = Some (True, tm') \<longrightarrow>
         \<not> force_trigger tm' \<and> next_trigger tm \<le> next_trigger tm' \<and>
         (skip_events tm \<longrightarrow> now < next_trigger tm') \<and>
         (next_trigger tm < next_trigger tm' \<longleftrightarrow> \<not> (skip_events tm \<and> now < next_trigger tm)))"
proof -
  let ?P = "timedelta_seconds (period tm)"
  have P: "0 < ?P" using assms by (rule timedelta_seconds_pos)
  note b = catch_up_bounds [OF P]
  show ?thesis
    using P b [of "next_trigger tm" now]
    by (auto simp add: due_eq [OF assms])
qed

theorem due_returns_and_advances_witness:
  "1 \<le> period \<lparr>period = 5, next_trigger = 5000000, skip_events = True, force_trigger = False\<rparr>
   \<and> due \<lparr>period = 5, next_trigger = 5000000, skip_events = True, force_trigger = False\<rparr> 12000000
     = Some (True, \<lparr>period = 5, next_trigger = 15000000, skip_events = True, force_trigger = False\<rparr>)
   \<and> due \<lparr>period = 5, next_trigger = 5000000, skip_events = True, force_trigger = False\<rparr> 5000000
     = Some (False, \<lparr>period = 5, next_trigger = 5000000, skip_events = True, force_trigger = False\<rparr>)"
  using due_returns_and_advances
    [of "\<lparr>period = 5, next_trigger = 5000000, skip_events = True, force_trigger = False\<rparr>" 12000000]
    due_returns_and_advances
    [of "\<lparr>period = 5, next_trigger = 5000000, skip_events = True, force_trigger = False\<rparr>" 5000000]
  by (simp add: timedelta_seconds_def)

subsection \<open>C2: twelve seconds without polling, with \<open>skip\<close>\<close>

text \<open>
  Claim C2 as stated: for \<open>Timer(period=5, skip=True)\<close>, after 12 seconds without polling
  the first \<open>due()\<close> returns true and resets \<open>next_trigger\<close> to \<open>now + 5\<close> seconds.

  The timer built at instant 0 has \<open>next_trigger\<close> at 5 seconds. At 12 seconds the loop
  adds the period twice, to 10 and to 15 seconds: \<open>next_trigger\<close> becomes \<open>now + 3\<close>
  seconds, not \<open>now + 5\<close> seconds.
\<close>

theorem skip_due_not_now_plus_period:
  "due (Timer_init 5 0 True 0) (timedelta_seconds 12)
     = Some (True, \<lparr>period = 5, next_trigger = timedelta_seconds 15,
                     skip_events = True, force_trigger = False\<rparr>)
   \<and> timedelta_seconds 15 \<noteq> timedelta_seconds 12 + timedelta_seconds 5"
proof -
  have p: "1 \<le> period (Timer_init 5 0 True 0)" by (simp add: Timer_init_def)
  show ?thesis
    by (simp add: due_eq [OF p]) (simp add: Timer_init_def timedelta_seconds_def)
qed

text \<open>
  Claim C2 as amended. For \<open>Timer(period=5, skip=True)\<close> built at any instant \<open>t0\<close>, if 12
  seconds pass with no polling, the first \<open>due()\<close> returns true and sets \<open>next_trigger\<close>
  to \<open>t0 + 15\<close> seconds, which is \<open>now + 3\<close> seconds: the first instant of the original
  5-second schedule after \<open>now\<close>. The two missed ticks (at 5 and 10 seconds) are collapsed
  into this single firing: a second \<open>due()\<close> at the same instant returns false.
\<close>

theorem skip_collapses_missed_ticks:
  "due (Timer_init 5 0 True t0) (t0 + timedelta_seconds 12)
     = Some (True, \<lparr>period = 5, next_trigger = t0 + timedelta_seconds 15,
                     skip_events = True, force_trigger = False\<rparr>)
   \<and> t0 + timedelta_seconds 15 = (t0 + timedelta_seconds 12) + timedelta_seconds 3
   \<and> due \<lparr>period = 5, next_trigger = t0 + timedelta_seconds 15,
           skip_events = True, force_trigger = False\<rparr> (t0 + timedelta_seconds 12)
     = Some (False, \<lparr>period = 5, next_trigger = t0 + timedelta_seconds 15,
                      skip_events = True, force_trigger = False\<rparr>)"
proof -
  have p: "1 \<le> period (Timer_init 5 0 True t0)" by (simp add: Timer_init_def)
  have "due (Timer_init 5 0 True t0) (t0 + timedelta_seconds 12)
     = Some (True, \<lparr>period = 5, next_trigger = t0 + timedelta_seconds 15,
                     skip_events = True, force_trigger = False\<rparr>)"
    by (simp add: due_eq [OF p]) (simp add: Timer_init_def timedelta_seconds_def)
  moreover have "due \<lparr>period = 5, next_trigger = t0 + timedelta_seconds 15,
           skip_events = True, force_trigger = False\<rparr> (t0 + timedelta_seconds 12)
     = Some (False, \<lparr>period = 5, next_trigger = t0 + timedelta_seconds 15,
                     skip_events = True, force_trigger = False\<rparr>)"
    by (simp add: due_def timedelta_seconds_def)
  ultimately show ?thesis by (simp add: timedelta_seconds_def)
qed

theorem skip_collapses_missed_ticks_witness:
  "due (Timer_init 5 0 True 1000) 12001000
     = Some (True, \<lparr>period = 5, next_trigger = 15001000, skip_events = True, force_trigger = False\<rparr>)
   \<and> due \<lparr>period = 5, next_trigger = 15001000, skip_events = True, force_trigger = False\<rparr> 12001000
     = Some (False, \<lparr>period = 5, next_trigger = 15001000, skip_events = True, force_trigger = False\<rparr>)"
  using skip_collapses_missed_ticks [of 1000] by (simp add: timedelta_seconds_def)

subsection \<open>C3: without \<open>skip\<close> every missed tick is replayed\<close>

text \<open>
  Claim C3. For every Timer with \<open>skip_events\<close> false, a firing \<open>due()\<close> adds exactly one
  period to \<open>next_trigger\<close>, also when the result is still in the past. So after two full
  periods have elapsed without polling (\<open>elapsed()\<close> is more than two periods, that is,
  \<open>next_trigger\<close> lies more than one period back), two consecutive \<open>due()\<close> calls both
  return true, the second at the same or a later instant; after them \<open>next_trigger\<close> has
  moved by two periods. The comparison in \<open>due\<close> is strict, so the second call fires once
  the clock is past the second tick, not at the very instant of it.
\<close>

theorem no_skip_replays_every_tick:
  assumes "\<not> skip_events tm" and "1 \<le> period tm"
  shows "(next_trigger tm < now \<or> force_trigger tm \<longrightarrow>
            due tm now =
              Some (True, tm\<lparr>next_trigger := next_trigger tm + timedelta_seconds (period tm),
                               force_trigger := False\<rparr>))
       \<and> (2 * of_int (period tm) < elapsed tm now \<and> now \<le> now' \<longrightarrow>
            due tm now =
              Some (True, tm\<lparr>next_trigger := next_trigger tm + timedelta_seconds (period tm),
                               force_trigger := False\<rparr>)
          \<and> next_trigger tm + timedelta_seconds (period tm) < now
          \<and> due (tm\<lparr>next_trigger := next_trigger tm + timedelta_seconds (period tm),
                       force_trigger := False\<rparr>) now' =
              Some (True, tm\<lparr>next_trigger := next_trigger tm + 2 * timedelta_seconds (period tm),
                               force_trigger := False\<rparr>))"
proof -
  have P: "0 < timedelta_seconds (period tm)"
    using assms(2) by (rule timedelta_seconds_pos)
  show ?thesis using assms(1) P by (simp add: due_no_skip elapsed_two_periods)
qed

theorem no_skip_replays_every_tick_witness:
  "\<not> skip_events (Timer_init 5 0 False 0) \<and> 1 \<le> period (Timer_init 5 0 False 0)
   \<and> 2 * of_int (period (Timer_init 5 0 False 0)) < elapsed (Timer_init 5 0 False 0) 12000000
   \<and> due (Timer_init 5 0 False 0) 12000000 =
       Some (True, \<lparr>period = 5, next_trigger = 10000000, skip_events = False, force_trigger = False\<rparr>)
   \<and> due \<lparr>period = 5, next_trigger = 10000000, skip_events = False, force_trigger = False\<rparr> 12000000 =
       Some (True, \<lparr>period = 5, next_trigger = 15000000, skip_events = False, force_trigger = False\<rparr>)"
  using no_skip_replays_every_tick [of "Timer_init 5 0 False 0" 12000000 12000000]
  by (simp add: Timer_init_def timedelta_seconds_def elapsed_def total_seconds_def)

subsection \<open>C4: \<open>trigger\<close> forces the next \<open>due\<close>\<close>

text \<open>
  Claim C4. For every Timer state, \<open>trigger()\<close> sets \<open>force_trigger\<close> and returns true
  without changing \<open>next_trigger\<close>, \<open>period\<close> or \<open>skip_events\<close>; and a \<open>due()\<close> right after
  it returns true at every instant \<open>now\<close>, so whatever \<open>remaining()\<close> is. The Timer states
  are those with \<open>period \<ge> 1\<close> (see C9): this is what makes the \<open>due()\<close> call return.
\<close>

theorem trigger_forces_due:
  "trigger tm = (True, tm\<lparr>force_trigger := True\<rparr>)
   \<and> force_trigger (snd (trigger tm))
   \<and> next_trigger (snd (trigger tm)) = next_trigger tm
   \<and> period (snd (trigger tm)) = period tm
   \<and> skip_events (snd (trigger tm)) = skip_events tm
   \<and> (1 \<le> period tm \<longrightarrow> map_option fst (due (snd (trigger tm)) now) = Some True)"
proof -
  have "map_option fst (due (snd (trigger tm)) now) = Some True" if "1 \<le> period tm"
  proof -
    from that have "1 \<le> period (snd (trigger tm))" by (simp add: trigger_def)
    from due_eq [OF this] show ?thesis by (simp add: trigger_def)
  qed
  then show ?thesis by (simp add: trigger_def)
qed

theorem trigger_forces_due_witness:
  "1 \<le> period (Timer_init 5 0 True 0)
   \<and> remaining (snd (trigger (Timer_init 5 0 True 0))) 1000000 = 4
   \<and> map_option fst (due (snd (trigger (Timer_init 5 0 True 0))) 1000000) = Some True
   \<and> remaining (snd (trigger (Timer_init 5 0 True 0))) 9000000 = 0
   \<and> map_option fst (due (snd (trigger (Timer_init 5 0 True 0))) 9000000) = Some True"
  using trigger_forces_due [of "Timer_init 5 0 True 0" 1000000]
    trigger_forces_due [of "Timer_init 5 0 True 0" 9000000]
  by (simp add: Timer_init_def timedelta_seconds_def remaining_def total_seconds_def trigger_def)

subsection \<open>C5: a fresh Timer is not due\<close>

text \<open>
  Claim C5. For all \<open>period \<ge> 1\<close> and all \<open>offset\<close>, a Timer constructed at instant \<open>t0\<close>
  has \<open>next_trigger = t0 + period\<close> seconds when \<open>offset = 0\<close> and \<open>t0 + offset\<close> seconds
  otherwise, and a \<open>due()\<close> called before \<open>offset\<close> (respectively \<open>period\<close>) seconds have
  elapsed since \<open>t0\<close> returns false and leaves the Timer as constructed.
\<close>

theorem fresh_timer_not_due:
  assumes "1 \<le> p"
  shows "next_trigger (Timer_init p offset skip t0) =
           (if offset = 0 then t0 + timedelta_seconds p else t0 + timedelta_seconds offset)
       \<and> (now - t0 < timedelta_seconds (if offset = 0 then p else offset) \<longrightarrow>
            due (Timer_init p offset skip t0) now = Some (False, Timer_init p offset skip t0))"
  using assms by (simp add: Timer_init_def due_def)

theorem fresh_timer_not_due_witness:
  "(1::int) \<le> 5
   \<and> next_trigger (Timer_init 5 0 True 7) = 7 + timedelta_seconds 5
   \<and> next_trigger (Timer_init 5 3 True 7) = 7 + timedelta_seconds 3
   \<and> (4000000::int) - 7 < timedelta_seconds 5
   \<and> due (Timer_init 5 0 True 7) 4000000 = Some (False, Timer_init 5 0 True 7)
   \<and> (2000000::int) - 7 < timedelta_seconds 3
   \<and> due (Timer_init 5 3 True 7) 2000000 = Some (False, Timer_init 5 3 True 7)"
  using fresh_timer_not_due [of 5 0 True 7 4000000] fresh_timer_not_due [of 5 3 True 7 2000000]
  by (simp add: timedelta_seconds_def)

subsection \<open>C6: when \<open>elapsed_pc\<close> is 100\<close>

text \<open>
  Claim C6 as stated: \<open>elapsed_pc()\<close> equals \<open>round(100 * elapsed() / period)\<close>, and it
  equals 100 if and only if \<open>now == next_trigger\<close>.

  The "only if" fails, since the value is rounded. A timer of 1000 seconds whose
  \<open>next_trigger\<close> was one second ago has \<open>elapsed() = 1001\<close>, and
  \<open>round(100 * 1001 / 1000) = round(100.1) = 100\<close>.
\<close>

theorem elapsed_pc_100_off_trigger:
  "elapsed_pc \<lparr>period = 1000, next_trigger = 1000000000, skip_events = True, force_trigger = False\<rparr>
      1001000000 = Inr 100
   \<and> (1001000000::int) \<noteq>
       next_trigger \<lparr>period = 1000, next_trigger = 1000000000, skip_events = True, force_trigger = False\<rparr>"
  by (simp add: elapsed_pc_def truediv_def elapsed_def total_seconds_def timedelta_seconds_def
        py_round_def Let_def)

text \<open>
  Claim C6 as amended. For every Timer (\<open>period \<ge> 1\<close>), \<open>elapsed_pc()\<close> equals
  \<open>round(100 * elapsed() / period)\<close>, and it equals 100 whenever \<open>now == next_trigger\<close>.
  The converse fails: it is 100 at other instants too, as above.
\<close>

theorem elapsed_pc_rounds:
  assumes "1 \<le> period tm"
  shows "elapsed_pc tm now = Inr (of_int (py_round (100 * elapsed tm now / of_int (period tm))))
       \<and> (now = next_trigger tm \<longrightarrow> elapsed_pc tm now = Inr 100)"
proof -
  have nz: "period tm \<noteq> 0" using assms by simp
  have "100 * elapsed tm (next_trigger tm) / of_int (period tm) = of_int 100"
    using nz by (simp add: elapsed_at_next_trigger)
  then have "py_round (100 * elapsed tm (next_trigger tm) / of_int (period tm)) = 100"
    by (simp only: py_round_of_int)
  then show ?thesis using nz by (simp add: elapsed_pc_eq)
qed

theorem elapsed_pc_rounds_witness:
  "1 \<le> period \<lparr>period = 5, next_trigger = 5000000, skip_events = True, force_trigger = False\<rparr>
   \<and> elapsed_pc \<lparr>period = 5, next_trigger = 5000000, skip_events = True, force_trigger = False\<rparr>
        5000000 = Inr 100"
  using elapsed_pc_rounds
    [of "\<lparr>period = 5, next_trigger = 5000000, skip_events = True, force_trigger = False\<rparr>" 5000000]
  by (simp add: elapsed_def total_seconds_def timedelta_seconds_def py_round_def)

subsection \<open>C7: \<open>get_percent\<close> and its division by zero\<close>

text \<open>
  Claim C7. \<open>get_percent()\<close> returns \<open>100 * (current - start) / (target - start)\<close> whenever
  \<open>target \<noteq> start\<close>; it fails with a division-by-zero error if and only if
  \<open>target = start\<close>. The method checks nothing beforehand: the error is the division's
  own, handed to the caller. In either case the object is unchanged.
\<close>

theorem get_percent_result:
  "(target pt \<noteq> start pt \<longrightarrow>
      fst (get_percent pt) =
        Inr (of_int (100 * (current pt - start pt)) / of_int (target pt - start pt)))
   \<and> (fst (get_percent pt) = Inl ZeroDivisionError \<longleftrightarrow> target pt = start pt)
   \<and> snd (get_percent pt) = pt"
  by (simp add: get_percent_def truediv_def)

theorem get_percent_result_witness:
  "target (ProgressTimer_init ''scan'' 100 0 (Some 25) 0) \<noteq> start (ProgressTimer_init ''scan'' 100 0 (Some 25) 0)
   \<and> fst (get_percent (ProgressTimer_init ''scan'' 100 0 (Some 25) 0)) = Inr 25
   \<and> target (ProgressTimer_init ''scan'' 7 7 None 0) = start (ProgressTimer_init ''scan'' 7 7 None 0)
   \<and> fst (get_percent (ProgressTimer_init ''scan'' 7 7 None 0)) = Inl ZeroDivisionError"
  using get_percent_result [of "ProgressTimer_init ''scan'' 100 0 (Some 25) 0"]
    get_percent_result [of "ProgressTimer_init ''scan'' 7 7 None 0"]
  by (simp add: ProgressTimer_init_def)

subsection \<open>C8: \<open>get_total_seconds\<close>\<close>

text \<open>
  Claim C8. \<open>get_total_seconds()\<close> returns 0 when \<open>current = start\<close>. Otherwise (and
  with \<open>target \<noteq> start\<close>, so that \<open>get_percent()\<close> has a value, which is then not zero) it
  returns the seconds elapsed since \<open>start_time\<close> times 100 divided by \<open>get_percent()\<close>. With
  \<open>start = 0\<close>, \<open>target = 100\<close>, \<open>current = 50\<close> and 10 seconds elapsed it returns 20.
\<close>

theorem get_total_seconds_result:
  "(current pt = start pt \<longrightarrow> get_total_seconds pt now = Inr 0)
   \<and> (current pt \<noteq> start pt \<and> target pt \<noteq> start pt \<longrightarrow>
        (\<exists>pc. fst (get_percent pt) = Inr pc \<and> pc \<noteq> 0
           \<and> get_total_seconds pt now = Inr (total_seconds (now - start_time pt) * 100 / pc)))
   \<and> get_total_seconds (update_count (ProgressTimer_init nm 100 0 None t0) 50)
        (t0 + timedelta_seconds 10) = Inr 20"
  by (simp add: get_total_seconds_def get_percent_def truediv_def total_seconds_def
        update_count_def ProgressTimer_init_def timedelta_seconds_def)

theorem get_total_seconds_result_witness:
  "current (update_count (ProgressTimer_init ''scan'' 100 0 None 0) 50)
     \<noteq> start (update_count (ProgressTimer_init ''scan'' 100 0 None 0) 50)
   \<and> target (update_count (ProgressTimer_init ''scan'' 100 0 None 0) 50)
     \<noteq> start (update_count (ProgressTimer_init ''scan'' 100 0 None 0) 50)
   \<and> fst (get_percent (update_count (ProgressTimer_init ''scan'' 100 0 None 0) 50)) = Inr 50
   \<and> get_total_seconds (update_count (ProgressTimer_init ''scan'' 100 0 None 0) 50) 10000000 = Inr 20
   \<and> current (ProgressTimer_init ''scan'' 100 0 None 0) = start (ProgressTimer_init ''scan'' 100 0 None 0)
   \<and> get_total_seconds (ProgressTimer_init ''scan'' 100 0 None 0) 10000000 = Inr 0"
  using get_total_seconds_result [of "update_count (ProgressTimer_init ''scan'' 100 0 None 0) 50" 10000000 "''scan''" 0]
    get_total_seconds_result [of "ProgressTimer_init ''scan'' 100 0 None 0" 10000000 "''scan''" 0]
  by (simp add: update_count_def ProgressTimer_init_def get_percent_def truediv_def total_seconds_def)

subsection \<open>C9: the period invariant\<close>

text \<open>
  Claim C9. Every Timer has \<open>period \<ge> 1\<close>. Construction has no failing branch: it takes
  any \<open>period\<close> and stores 1 in place of a value below 1. No sequence of calls of \<open>due\<close>,
  \<open>restart\<close>, \<open>trigger\<close>, \<open>wait\<close>, \<open>elapsed\<close>, \<open>elapsed_pc\<close> and \<open>remaining\<close>, from any state,
  changes \<open>period\<close>; so after any such sequence on a constructed Timer it is at least 1.
\<close>

theorem period_invariant:
  "period (Timer_init p offset skip t0) = (if p < 1 then 1 else p)
   \<and> 1 \<le> period (Timer_init p offset skip t0)
   \<and> (calls cs tm = Some tm' \<longrightarrow> period tm' = period tm)
   \<and> (calls cs (Timer_init p offset skip t0) = Some tm' \<longrightarrow> 1 \<le> period tm')"
proof -
  have a: "period (Timer_init p offset skip t0) = (if p < 1 then 1 else p)"
    by (rule Timer_init_period)
  then have b: "1 \<le> period (Timer_init p offset skip t0)" by simp
  have c: "calls cs tm = Some tm' \<longrightarrow> period tm' = period tm"
    using calls_period by blast
  have d: "calls cs (Timer_init p offset skip t0) = Some tm' \<longrightarrow> 1 \<le> period tm'"
    using calls_period [of cs "Timer_init p offset skip t0" tm'] b by auto
  from a b c d show ?thesis by blast
qed

theorem period_invariant_witness:
  "calls [Due 12000000, Trigger, Elapsed 12000001, Wait (\<lambda>i. 12000002 + int i), Remaining 12000003,
          Elapsed_pc 12000004, Restart 12000005]
      (Timer_init 0 0 True 0)
     = Some \<lparr>period = 1, next_trigger = 13000005, skip_events = True, force_trigger = False\<rparr>
   \<and> period (Timer_init 0 0 True 0) = 1"
  using period_invariant [of 0 0 True 0
     "[Due 12000000, Trigger, Elapsed 12000001, Wait (\<lambda>i. 12000002 + int i), Remaining 12000003,
          Elapsed_pc 12000004, Restart 12000005]"
     "Timer_init 0 0 True 0"
     "\<lparr>period = 1, next_trigger = 13000005, skip_events = True, force_trigger = False\<rparr>"]
  by (simp add: Timer_init_def timedelta_seconds_def due_def set_next_trigger_def skip_loop_eq
      trigger_def restart_def wait.simps elapsed_pc_def truediv_def)

subsection \<open>C10: a forced trigger ahead of schedule\<close>

text \<open>
  Claim C10. Let \<open>force_trigger\<close> be set while \<open>next_trigger\<close> is still strictly in the
  future. With \<open>skip_events\<close> the next \<open>due()\<close> returns true and clears \<open>force_trigger\<close> but
  leaves \<open>next_trigger\<close> unchanged, so the natural tick keeps its time: a later \<open>due()\<close>
  returns false up to \<open>next_trigger\<close> and true after it. Without \<open>skip_events\<close> the forced
  \<open>due()\<close> moves \<open>next_trigger\<close> one further period into the future.
\<close>

theorem forced_due_before_next_trigger:
  assumes "force_trigger tm" and "now < next_trigger tm"
  shows "(skip_events tm \<longrightarrow>
            due tm now = Some (True, tm\<lparr>force_trigger := False\<rparr>)
          \<and> (now' \<le> next_trigger tm \<longrightarrow>
               due (tm\<lparr>force_trigger := False\<rparr>) now' = Some (False, tm\<lparr>force_trigger := False\<rparr>))
          \<and> (next_trigger tm < now' \<and> 1 \<le> period tm \<longrightarrow>
               map_option fst (due (tm\<lparr>force_trigger := False\<rparr>) now') = Some True))
       \<and> (\<not> skip_events tm \<longrightarrow>
            due tm now =
              Some (True, tm\<lparr>next_trigger := next_trigger tm + timedelta_seconds (period tm),
                               force_trigger := False\<rparr>))"
proof -
  have a: "due tm now = Some (True, tm\<lparr>force_trigger := False\<rparr>)" if "skip_events tm"
    using that assms by (simp add: due_def set_next_trigger_future)
  have b: "due (tm\<lparr>force_trigger := False\<rparr>) now' = Some (False, tm\<lparr>force_trigger := False\<rparr>)"
    if "now' \<le> next_trigger tm"
    using that by (simp add: due_def)
  have c: "map_option fst (due (tm\<lparr>force_trigger := False\<rparr>) now') = Some True"
    if "next_trigger tm < now'" and "1 \<le> period tm"
  proof -
    from that(2) have "1 \<le> period (tm\<lparr>force_trigger := False\<rparr>)" by simp
    from due_eq [OF this, of now'] that(1) show ?thesis by simp
  qed
  have d: "due tm now =
              Some (True, tm\<lparr>next_trigger := next_trigger tm + timedelta_seconds (period tm),
                               force_trigger := False\<rparr>)" if "\<not> skip_events tm"
    using that assms by (simp add: due_no_skip)
  from a b c d show ?thesis by blast
qed

theorem forced_due_before_next_trigger_witness:
  "force_trigger \<lparr>period = 5, next_trigger = 5000000, skip_events = True, force_trigger = True\<rparr>
   \<and> (1000000::int) < next_trigger \<lparr>period = 5, next_trigger = 5000000, skip_events = True, force_trigger = True\<rparr>
   \<and> due \<lparr>period = 5, next_trigger = 5000000, skip_events = True, force_trigger = True\<rparr> 1000000
       = Some (True, \<lparr>period = 5, next_trigger = 5000000, skip_events = True, force_trigger = False\<rparr>)
   \<and> map_option fst (due \<lparr>period = 5, next_trigger = 5000000, skip_events = True, force_trigger = False\<rparr> 5000001)
       = Some True
   \<and> due \<lparr>period = 5, next_trigger = 5000000, skip_events = False, force_trigger = True\<rparr> 1000000
       = Some (True, \<lparr>period = 5, next_trigger = 10000000, skip_events = False, force_trigger = False\<rparr>)"
  using forced_due_before_next_trigger
      [of "\<lparr>period = 5, next_trigger = 5000000, skip_events = True, force_trigger = True\<rparr>"
          1000000 5000001]
    forced_due_before_next_trigger
      [of "\<lparr>period = 5, next_trigger = 5000000, skip_events = False, force_trigger = True\<rparr>"
          1000000 5000001]
  by (simp add: timedelta_seconds_def)

end
